theory Spec2Isabelle
  imports Main "HOL-Library.Sublist"
begin

section \<open>Values that arrive over the WebSocket\<close>

text \<open>
  \<^verbatim>\<open>useWebSocket\<close> runs \<^verbatim>\<open>JSON.parse(event.data)\<close> and trusts the result to be a
  \<^verbatim>\<open>WSMessage\<close>; nothing checks the shape at run time. The handler is therefore modelled
  on the parsed JavaScript value. An object is the list of its members in the order of
  the text; \<^verbatim>\<open>JSON.parse\<close> keeps the last of two members with one key.
\<close>

datatype jsval =
    JUndefined
  | JNull
  | JBool bool
  | JNum int
  | JStr string
  | JArr "jsval list"
  | JObj "(string \<times> jsval) list"

datatype js_error = TypeError

text \<open>
  Property access \<^verbatim>\<open>v.k\<close> for the keys the handler reads (\<^verbatim>\<open>type\<close>, \<^verbatim>\<open>stage\<close>,
  \<^verbatim>\<open>typst_source\<close>, \<^verbatim>\<open>detail\<close>): it throws on \<^verbatim>\<open>null\<close> and \<^verbatim>\<open>undefined\<close>, reads the
  member of an object and is \<^verbatim>\<open>undefined\<close> on every other value.
\<close>

fun get_prop :: "jsval \<Rightarrow> string \<Rightarrow> js_error + jsval" where
  "get_prop JUndefined k = Inl TypeError"
| "get_prop JNull k = Inl TypeError"
| "get_prop (JObj kvs) k =
     (case map_of (rev kvs) k of None \<Rightarrow> Inr JUndefined | Some v \<Rightarrow> Inr v)"
| "get_prop v k = Inr JUndefined"

section \<open>The message contract (frontend/src/types/index.ts)\<close>

text \<open>
  \<^verbatim>\<open>BackendInfo.status\<close> is \<^verbatim>\<open>"searching" | "done" | "failed"\<close>; the status of a
  \<^verbatim>\<open>backend_update\<close> is \<^verbatim>\<open>"done" | "failed"\<close>.
\<close>

datatype backend_status = Searching | Done | Failed

fun status_name :: "backend_status \<Rightarrow> string" where
  "status_name Searching = ''searching''"
| "status_name Done = ''done''"
| "status_name Failed = ''failed''"

datatype BackendInfo = BackendInfo (info_name: string) (info_status: backend_status)

datatype update_status = UpdateDone | UpdateFailed

fun update_status_name :: "update_status \<Rightarrow> string" where
  "update_status_name UpdateDone = ''done''"
| "update_status_name UpdateFailed = ''failed''"

text \<open>
  The union \<^verbatim>\<open>WSMessage\<close>, one constructor per variant, optional members as options:
  \<^verbatim>\<open>status\<close> (stage, backends?, detail?), \<^verbatim>\<open>backend_update\<close> (name, status, claims?,
  error?), \<^verbatim>\<open>report\<close> (typst_source), \<^verbatim>\<open>error\<close> (detail), \<^verbatim>\<open>ack\<close> (data).
\<close>

datatype WSMessage =
    StatusMsg string "BackendInfo list option" "string option"
  | BackendUpdateMsg string update_status "int option" "string option"
  | ReportMsg string
  | ErrorMsg string
  | AckMsg string

fun message_type :: "WSMessage \<Rightarrow> string" where
  "message_type (StatusMsg stg backends detail) = ''status''"
| "message_type (BackendUpdateMsg name st cnt err) = ''backend_update''"
| "message_type (ReportMsg src) = ''report''"
| "message_type (ErrorMsg detail) = ''error''"
| "message_type (AckMsg d) = ''ack''"

definition optional_member :: "string \<Rightarrow> jsval option \<Rightarrow> (string \<times> jsval) list" where
  "optional_member k v = (case v of None \<Rightarrow> [] | Some x \<Rightarrow> [(k, x)])"

definition info_json :: "BackendInfo \<Rightarrow> jsval" where
  "info_json b =
     JObj [(''name'', JStr (info_name b)), (''status'', JStr (status_name (info_status b)))]"

text \<open>The JavaScript object a value of the union is.\<close>

fun message_json :: "WSMessage \<Rightarrow> jsval" where
  "message_json (StatusMsg stg backends detail) =
     JObj ([(''type'', JStr ''status''), (''stage'', JStr stg)]
           @ optional_member ''backends'' (map_option (\<lambda>bs. JArr (map info_json bs)) backends)
           @ optional_member ''detail'' (map_option JStr detail))"
| "message_json (BackendUpdateMsg name st cnt err) =
     JObj ([(''type'', JStr ''backend_update''), (''name'', JStr name),
            (''status'', JStr (update_status_name st))]
           @ optional_member ''claims'' (map_option JNum cnt)
           @ optional_member ''error'' (map_option JStr err))"
| "message_json (ReportMsg src) =
     JObj [(''type'', JStr ''report''), (''typst_source'', JStr src)]"
| "message_json (ErrorMsg detail) =
     JObj [(''type'', JStr ''error''), (''detail'', JStr detail)]"
| "message_json (AckMsg d) =
     JObj [(''type'', JStr ''ack''), (''data'', JStr d)]"

section \<open>The hook useWebSocket\<close>

text \<open>
  The hook's state: \<^verbatim>\<open>stage\<close>, \<^verbatim>\<open>typstSource\<close>, \<^verbatim>\<open>error\<close> and \<^verbatim>\<open>connected\<close>. The first
  three are declared strings and hold whatever the setter was given.
\<close>

record ws_state =
  stage :: jsval
  typstSource :: jsval
  ws_error :: jsval
  connected :: bool

definition ws_initial :: ws_state where
  "ws_initial = \<lparr>stage = JStr '''', typstSource = JStr '''', ws_error = JStr '''', connected = False\<rparr>"

text \<open>
  \<^verbatim>\<open>ws.onmessage\<close> on the parsed message: a \<^verbatim>\<open>switch\<close> on \<^verbatim>\<open>msg.type\<close> (strict equality)
  with the cases \<^verbatim>\<open>"status"\<close>, \<^verbatim>\<open>"report"\<close> and \<^verbatim>\<open>"error"\<close> and no default. An exception
  leaves the state as it was.
\<close>

definition onmessage :: "jsval \<Rightarrow> ws_state \<Rightarrow> js_error + ws_state" where
  "onmessage msg s =
     (case get_prop msg ''type'' of
        Inl e \<Rightarrow> Inl e
      | Inr t \<Rightarrow>
          if t = JStr ''status'' then
            (case get_prop msg ''stage'' of
               Inl e \<Rightarrow> Inl e | Inr v \<Rightarrow> Inr (s\<lparr>stage := v\<rparr>))
          else if t = JStr ''report'' then
            (case get_prop msg ''typst_source'' of
               Inl e \<Rightarrow> Inl e | Inr v \<Rightarrow> Inr (s\<lparr>typstSource := v\<rparr>))
          else if t = JStr ''error'' then
            (case get_prop msg ''detail'' of
               Inl e \<Rightarrow> Inl e | Inr v \<Rightarrow> Inr (s\<lparr>ws_error := v\<rparr>))
          else Inr s)"

definition onopen :: "ws_state \<Rightarrow> ws_state" where
  "onopen s = s\<lparr>connected := True\<rparr>"

definition onclose :: "ws_state \<Rightarrow> ws_state" where
  "onclose s = s\<lparr>connected := False\<rparr>"

definition onerror :: "ws_state \<Rightarrow> ws_state" where
  "onerror s = s\<lparr>ws_error := JStr ''WebSocket connection failed''\<rparr>"

section \<open>The hook useTypst\<close>

text \<open>
  What a \<^verbatim>\<open>catch\<close> receives: an \<^verbatim>\<open>Error\<close> with its message, or any other thrown value.
  An awaited promise resolves, rejects or never settles.
\<close>

datatype thrown = ErrorObj string | NonError

datatype 'a settled = Resolves 'a | Rejects thrown | NeverSettles

text \<open>
  The environment of the hook: what loading and initialising typst.ts settles to
  (\<^verbatim>\<open>initTypst()\<close>, the dynamic import in the older file), and what
  \<^verbatim>\<open>$typst.svg({ mainContent: source })\<close> settles to for each source.
\<close>

record typst_env =
  init_typst :: "unit settled"
  svg_of :: "string \<Rightarrow> string settled"

text \<open>
  The state: \<^verbatim>\<open>svg\<close>, \<^verbatim>\<open>compiling\<close>, \<^verbatim>\<open>error\<close>, the ref \<^verbatim>\<open>lastSource\<close>, the module's
  cached promise (\<^verbatim>\<open>initPromise\<close>, \<^verbatim>\<open>null\<close> at first), and a log of the sources
  \<^verbatim>\<open>$typst.svg\<close> was called with, which the code does not keep and the claims count.
\<close>

record typst_state =
  svg :: string
  compiling :: bool
  error :: string
  lastSource :: string
  initPromise :: "unit settled option"
  svg_calls :: "string list"

definition typst_initial :: typst_state where
  "typst_initial =
     \<lparr>svg = '''', compiling = False, error = '''', lastSource = '''',
      initPromise = None, svg_calls = []\<rparr>"

text \<open>\<^verbatim>\<open>getTypst\<close>: create the promise once, return the cached one afterwards.\<close>

definition getTypst :: "typst_env \<Rightarrow> typst_state \<Rightarrow> unit settled \<times> typst_state" where
  "getTypst env st =
     (case initPromise st of
        None \<Rightarrow> (init_typst env, st\<lparr>initPromise := Some (init_typst env)\<rparr>)
      | Some p \<Rightarrow> (p, st))"

text \<open>\<^verbatim>\<open>err instanceof Error ? err.message : "Typst compilation failed"\<close>\<close>

fun thrown_message :: "thrown \<Rightarrow> string" where
  "thrown_message (ErrorObj m) = m"
| "thrown_message NonError = ''Typst compilation failed''"

text \<open>The \<^verbatim>\<open>catch\<close> block followed by the \<^verbatim>\<open>finally\<close> block.\<close>

definition catch_finally :: "thrown \<Rightarrow> typst_state \<Rightarrow> typst_state" where
  "catch_finally err st = st\<lparr>error := thrown_message err, compiling := False\<rparr>"

text \<open>
  A call of the async function either runs to its end or stays suspended at an
  \<^verbatim>\<open>await\<close> that never settles; both carry the state that React then holds.
\<close>

datatype 'a run = Finished 'a | Pending 'a

fun run_state :: "'a run \<Rightarrow> 'a" where
  "run_state (Finished s) = s"
| "run_state (Pending s) = s"

definition compile :: "typst_env \<Rightarrow> string \<Rightarrow> typst_state \<Rightarrow> typst_state run" where
  "compile env source st =
     (if source = '''' \<or> source = lastSource st then Finished st
      else
        let st1 = st\<lparr>lastSource := source, compiling := True, error := ''''\<rparr>;
            (p, st2) = getTypst env st1
        in case p of
             NeverSettles \<Rightarrow> Pending st2
           | Rejects err \<Rightarrow> Finished (catch_finally err st2)
           | Resolves u \<Rightarrow>
               (let st3 = st2\<lparr>svg_calls := svg_calls st2 @ [source]\<rparr>
                in case svg_of env source of
                     NeverSettles \<Rightarrow> Pending st3
                   | Rejects err \<Rightarrow> Finished (catch_finally err st3)
                   | Resolves result \<Rightarrow> Finished (st3\<lparr>svg := result, compiling := False\<rparr>)))"

text \<open>What the awaited chain of a compilation settles to, seen from a state.\<close>

definition compilation :: "typst_env \<Rightarrow> typst_state \<Rightarrow> string \<Rightarrow> string settled" where
  "compilation env st source =
     (case fst (getTypst env st) of
        NeverSettles \<Rightarrow> NeverSettles
      | Rejects err \<Rightarrow> Rejects err
      | Resolves u \<Rightarrow> svg_of env source)"

section \<open>The sidebar's status icons (ChatSidebar.tsx)\<close>




section \<open>The conflict callout (typst/components/conflict-box.typ)\<close>

text \<open>
  Typst content as a tree: text, strong emphasis, \<^verbatim>\<open>text(..)[..]\<close> and \<^verbatim>\<open>block(..)[..]\<close>
  with their named arguments, vertical space and list items. White space between the
  pieces of markup is not kept, except the one space written inside a line of text.
  A position is a dictionary with string values; reading a key it does not have is an
  error that stops the whole evaluation.
\<close>

datatype content =
    Str string
  | Strong content
  | TextFn "(string \<times> string) list" "content list"
  | VSpace string
  | ListItem "content list"
  | Block "(string \<times> string) list" "content list"

type_synonym dict = "(string \<times> string) list"

datatype typst_error = KeyNotFound string

definition field :: "dict \<Rightarrow> string \<Rightarrow> typst_error + string" where
  "field d k = (case map_of d k of None \<Rightarrow> Inl (KeyNotFound k) | Some v \<Rightarrow> Inr v)"

definition keys :: "dict \<Rightarrow> string list" where
  "keys d = map fst d"

text \<open>
  The body of the loop:
  \<^verbatim>\<open>- *#pos.source*: #pos.claim\<close> and, indented under the item,
  \<^verbatim>\<open>#if pos.keys().contains("citation") [ #text(size: 9pt, fill: gray)[(#pos.citation)] ]\<close>.
\<close>

definition position_item :: "dict \<Rightarrow> typst_error + content" where
  "position_item pos =
     (case field pos ''source'' of
        Inl e \<Rightarrow> Inl e
      | Inr src \<Rightarrow>
          (case field pos ''claim'' of
             Inl e \<Rightarrow> Inl e
           | Inr cl \<Rightarrow>
               if ''citation'' \<in> set (keys pos) then
                 (case field pos ''citation'' of
                    Inl e \<Rightarrow> Inl e
                  | Inr cit \<Rightarrow>
                      Inr (ListItem
                        [Strong (Str src), Str '': '', Str cl,
                         TextFn [(''size'', ''9pt''), (''fill'', ''gray'')]
                           [Str ''('', Str cit, Str '')'']]))
               else Inr (ListItem [Strong (Str src), Str '': '', Str cl])))"

text \<open>\<^verbatim>\<open>#for pos in positions [...]\<close>: the items in order; the first error ends the loop.\<close>

fun position_items :: "dict list \<Rightarrow> typst_error + content list" where
  "position_items [] = Inr []"
| "position_items (pos # rest) =
     (case position_item pos of
        Inl e \<Rightarrow> Inl e
      | Inr item \<Rightarrow>
          (case position_items rest of
             Inl e \<Rightarrow> Inl e
           | Inr items \<Rightarrow> Inr (item # items)))"

text \<open>\<^verbatim>\<open>#if resolution != none [ #v(0.5em) #text(style: "italic")[Resolution: #resolution] ]\<close>\<close>

definition resolution_part :: "string option \<Rightarrow> content list" where
  "resolution_part resolution =
     (case resolution of
        None \<Rightarrow> []
      | Some r \<Rightarrow> [VSpace ''0.5em'', TextFn [(''style'', ''italic'')] [Str ''Resolution: '', Str r]])"

text \<open>
  \<^verbatim>\<open>conflict-box(topic: "", positions: (), resolution: none)\<close>: the arguments are
  named and have these defaults.
\<close>

definition conflict_box :: "string \<Rightarrow> dict list \<Rightarrow> string option \<Rightarrow> typst_error + content" where
  "conflict_box topic positions resolution =
     (case position_items positions of
        Inl e \<Rightarrow> Inl e
      | Inr items \<Rightarrow>
          Inr (Block
            [(''width'', ''100%''), (''inset'', ''12pt''), (''radius'', ''4pt''),
             (''fill'', ''rgb(#FFF3CD)''), (''stroke'', ''1pt + rgb(#FFCA2C)'')]
            ([TextFn [(''weight'', ''bold''), (''size'', ''10pt''), (''fill'', ''rgb(#664D03)'')]
                [Str ''Disputed: '', Str topic],
              VSpace ''0.5em'']
             @ items
             @ resolution_part resolution)))"

text \<open>Reading a rendered block back: its plain text, its list items, its italic lines.\<close>

fun plain :: "content \<Rightarrow> string" where
  "plain (Str s) = s"
| "plain (Strong c) = plain c"
| "plain (TextFn args body) = concat (map plain body)"
| "plain (VSpace h) = ''''"
| "plain (ListItem body) = concat (map plain body)"
| "plain (Block args body) = concat (map plain body)"

fun block_body :: "content \<Rightarrow> content list" where
  "block_body (Block args body) = body"
| "block_body c = []"

fun is_item :: "content \<Rightarrow> bool" where
  "is_item (ListItem body) = True"
| "is_item c = False"

fun is_italic :: "content \<Rightarrow> bool" where
  "is_italic (TextFn args body) = (map_of args ''style'' = Some ''italic'')"
| "is_italic c = False"

definition entries :: "content \<Rightarrow> content list" where
  "entries blk = filter is_item (block_body blk)"

definition resolution_lines :: "content \<Rightarrow> string list" where
  "resolution_lines blk = map plain (filter is_italic (block_body blk))"

text \<open>What an entry is to show for a position: backend, text and, when it has one, citation.\<close>

definition listed :: "dict \<Rightarrow> string" where
  "listed pos =
     the (map_of pos ''source'') @ '': '' @ the (map_of pos ''claim'')
     @ (case map_of pos ''citation'' of None \<Rightarrow> '''' | Some c \<Rightarrow> ''('' @ c @ '')'')"

section \<open>The orchestrator core, as the specification describes it\<close>

text \<open>
  The Dispatcher, the Synthesizer, the Claim Store and the Session Controller belong to
  the Python backend, whose sources are missing: the front end, the Typst components and
  SPEC.md are what the repository holds. The definitions of this section follow the
  sentences of the specification (sections 3, 4.2, 4.3, 4.4, 4.6, 6 and 7). A claim's
  \<^verbatim>\<open>confidence\<close>, a float that plays no part in grouping, is left out.
\<close>

text \<open>Modelled from the spec: the similarity judgment, which classifies two claim texts
  under one topic key as duplicate, conflicting or unrelated (the Synthesizer's code is
  missing).\<close>

datatype verdict = Duplicate | Conflicting | Unrelated

text \<open>Modelled from the spec: the pluggable parts of the Synthesizer, namely the
  normalisation that computes a topic key from a draft's text and the similarity
  predicate (their implementations are missing).\<close>

record strategy =
  topic_key_of :: "string \<Rightarrow> string"
  classify :: "string \<Rightarrow> string \<Rightarrow> verdict"

text \<open>Modelled from the spec: a claim draft of a BackendResult, with the text and the
  evidence a Citation is built from; an unparsable draft is \<open>Malformed\<close> (the backend's
  models are missing).\<close>

record draft =
  draft_text :: string
  draft_url :: "string option"
  draft_source_id :: "nat option"

datatype raw_draft = Parsed draft | Malformed

text \<open>Modelled from the spec: Citation (section 3; the backend's models are missing).\<close>

record citation =
  cit_claim_id :: nat
  llm_source :: string
  underlying_url :: "string option"
  underlying_source_id :: "nat option"

text \<open>Modelled from the spec: Claim (section 3; the backend's models are missing).\<close>

record claim =
  claim_id :: nat
  claim_text :: string
  topic_key :: string
  reporting_backends :: "string set"
  citations :: "citation list"
  superseded_by :: "nat option"

text \<open>Modelled from the spec: Conflict (section 3; the backend's models are missing).\<close>

record conflict =
  conflict_id :: nat
  conflict_topic_key :: string
  member_claim_ids :: "nat set"
  conflict_resolution :: "string option"

text \<open>Modelled from the spec: the Claim Store of one session, its Claims in the order of
  their creation, its Conflicts, and the next ids the Synthesizer assigns (the store's
  code is missing).\<close>

record store =
  claims :: "claim list"
  conflicts :: "conflict list"
  next_claim_id :: nat
  next_conflict_id :: nat

text \<open>Modelled from the spec: the Claim Store of a session created on its first query,
  before any result (the store's code is missing).\<close>

definition empty_store :: store where
  "empty_store = \<lparr>claims = [], conflicts = [], next_claim_id = 0, next_conflict_id = 0\<rparr>"

text \<open>Modelled from the spec: the Citation a backend's draft adds to a Claim (the
  Synthesizer's code is missing).\<close>

definition new_citation :: "nat \<Rightarrow> string \<Rightarrow> draft \<Rightarrow> citation" where
  "new_citation cid backend d =
     \<lparr>cit_claim_id = cid, llm_source = backend,
      underlying_url = draft_url d, underlying_source_id = draft_source_id d\<rparr>"

text \<open>Modelled from the spec: the merge of a duplicate, where the earlier Claim's
  \<^verbatim>\<open>reporting_backends\<close> gains the new backend and its Citations gain one more entry
  (the Claim Store's code is missing).\<close>

definition merge_into :: "string \<Rightarrow> draft \<Rightarrow> claim \<Rightarrow> claim" where
  "merge_into backend d c =
     c\<lparr>reporting_backends := insert backend (reporting_backends c),
       citations := citations c @ [new_citation (claim_id c) backend d]\<rparr>"

text \<open>Modelled from the spec: the search for the earliest Claim a draft duplicates; it
  answers \<open>None\<close> when there is none (the Claim Store's code is missing).\<close>

fun merge_first :: "(claim \<Rightarrow> bool) \<Rightarrow> (claim \<Rightarrow> claim) \<Rightarrow> claim list \<Rightarrow> claim list option" where
  "merge_first P f [] = None"
| "merge_first P f (c # cs) =
     (if P c then Some (f c # cs) else map_option ((#) c) (merge_first P f cs))"

text \<open>Modelled from the spec: a Conflict is created or extended, linking the given
  Claim ids under their topic key (the Synthesizer's code is missing).\<close>

definition link_conflict :: "string \<Rightarrow> nat set \<Rightarrow> store \<Rightarrow> store" where
  "link_conflict k ids s =
     (if \<exists>x \<in> set (conflicts s). conflict_topic_key x = k then
        s\<lparr>conflicts :=
            map (\<lambda>x. if conflict_topic_key x = k
                      then x\<lparr>member_claim_ids := member_claim_ids x \<union> ids\<rparr> else x)
              (conflicts s)\<rparr>
      else
        s\<lparr>conflicts := conflicts s @
              [\<lparr>conflict_id = next_conflict_id s, conflict_topic_key = k,
                member_claim_ids = ids, conflict_resolution = None\<rparr>],
          next_conflict_id := Suc (next_conflict_id s)\<rparr>)"

text \<open>Modelled from the spec: when a draft duplicates an earlier Claim, namely under the
  same topic key and with equal text or a text judged duplicate (section 4.3; the
  Synthesizer's code is missing).\<close>

definition is_duplicate :: "strategy \<Rightarrow> draft \<Rightarrow> claim \<Rightarrow> bool" where
  "is_duplicate strat d c \<longleftrightarrow>
     topic_key c = topic_key_of strat (draft_text d)
     \<and> (claim_text c = draft_text d
        \<or> classify strat (claim_text c) (draft_text d) = Duplicate)"

text \<open>Modelled from the spec: when a draft conflicts with an earlier Claim, namely under
  the same topic key and with a text judged substantively different (section 4.3; the
  Synthesizer's code is missing).\<close>

definition is_rival :: "strategy \<Rightarrow> draft \<Rightarrow> claim \<Rightarrow> bool" where
  "is_rival strat d c \<longleftrightarrow>
     topic_key c = topic_key_of strat (draft_text d)
     \<and> classify strat (claim_text c) (draft_text d) = Conflicting"

text \<open>Modelled from the spec: the Claim a draft becomes when it is not merged (section
  4.3; the Synthesizer's code is missing).\<close>

definition new_claim :: "strategy \<Rightarrow> nat \<Rightarrow> string \<Rightarrow> draft \<Rightarrow> claim" where
  "new_claim strat n backend d =
     \<lparr>claim_id = n, claim_text = draft_text d,
      topic_key = topic_key_of strat (draft_text d),
      reporting_backends = {backend},
      citations = [new_citation n backend d], superseded_by = None\<rparr>"

text \<open>Modelled from the spec: add-or-merge-claim (sections 4.3 and 4.4). A draft that
  duplicates an earlier Claim is merged into the earliest such Claim and no Claim is
  created; otherwise a Claim is created, and when earlier Claims under the key are judged
  conflicting with it a Conflict links them; unrelated Claims stay separate (the Claim
  Store's code is missing).\<close>

definition add_or_merge_claim :: "strategy \<Rightarrow> string \<Rightarrow> draft \<Rightarrow> store \<Rightarrow> store" where
  "add_or_merge_claim strat backend d s =
     (case merge_first (is_duplicate strat d) (merge_into backend d) (claims s) of
        Some cs \<Rightarrow> s\<lparr>claims := cs\<rparr>
      | None \<Rightarrow>
          (let n = next_claim_id s;
               rivals = map claim_id (filter (is_rival strat d) (claims s));
               s1 = s\<lparr>claims := claims s @ [new_claim strat n backend d],
                      next_claim_id := Suc n\<rparr>
           in if rivals = [] then s1
              else link_conflict (topic_key_of strat (draft_text d)) (insert n (set rivals)) s1))"

text \<open>Modelled from the spec: resolve-conflict, which sets the resolution and is
  idempotent (the Claim Store's code is missing).\<close>

definition resolve_conflict :: "nat \<Rightarrow> string \<Rightarrow> store \<Rightarrow> store" where
  "resolve_conflict cid txt s =
     s\<lparr>conflicts :=
         map (\<lambda>x. if conflict_id x = cid then x\<lparr>conflict_resolution := Some txt\<rparr> else x)
           (conflicts s)\<rparr>"

text \<open>Modelled from the spec: the operations that change Claims and Conflicts:
  add-or-merge-claim by the Synthesizer and the external resolve-conflict (sections 3
  and 4.4; the Claim Store's code is missing).\<close>

datatype store_op = AddOrMerge string draft | ResolveConflict nat string

text \<open>Modelled from the spec: one such operation on the store (the Claim Store's code is
  missing).\<close>

fun apply_store_op :: "strategy \<Rightarrow> store_op \<Rightarrow> store \<Rightarrow> store" where
  "apply_store_op strat (AddOrMerge backend d) s = add_or_merge_claim strat backend d s"
| "apply_store_op strat (ResolveConflict cid txt) s = resolve_conflict cid txt s"

text \<open>Modelled from the spec: a history of operations, applied in order; merges are
  serialized (sections 4.4 and 5; the Claim Store's code is missing).\<close>

definition run_ops :: "strategy \<Rightarrow> store_op list \<Rightarrow> store \<Rightarrow> store" where
  "run_ops strat ops s = fold (apply_store_op strat) ops s"

text \<open>The invariants of section 3 that concern Conflicts, with what keeps them: every
  Claim's id is below the next id to assign, and every Conflict has two or more members,
  each the id of a Claim of the store under the Conflict's topic key.\<close>

definition claim_keys :: "store \<Rightarrow> (nat \<times> string) set" where
  "claim_keys s = (\<lambda>c. (claim_id c, topic_key c)) ` set (claims s)"

definition conflict_ok :: "store \<Rightarrow> conflict \<Rightarrow> bool" where
  "conflict_ok s x \<longleftrightarrow>
     finite (member_claim_ids x) \<and> 2 \<le> card (member_claim_ids x)
     \<and> (\<forall>i \<in> member_claim_ids x. (i, conflict_topic_key x) \<in> claim_keys s)"

definition store_invariant :: "store \<Rightarrow> bool" where
  "store_invariant s \<longleftrightarrow>
     (\<forall>c \<in> set (claims s). claim_id c < next_claim_id s)
     \<and> (\<forall>x \<in> set (conflicts s). conflict_ok s x)"

text \<open>Modelled from the spec: the member Claims of a Conflict, in the order of their
  creation, as the Document Projector lists them (section 4.5; the Projector's code is
  missing).\<close>

definition member_claims :: "store \<Rightarrow> conflict \<Rightarrow> claim list" where
  "member_claims s x = filter (\<lambda>c. claim_id c \<in> member_claim_ids x) (claims s)"

text \<open>Modelled from the spec: the rendering of one Conflict, a flagged block listing all
  member Claims (section 4.5), through the callout as SPEC.md calls it: the topic, one
  position per member Claim and the resolution. How a Claim is written as a position is
  the Typst generator's, whose code is missing, and is the parameter \<open>pos_of\<close>.\<close>

definition render_conflict ::
  "(claim \<Rightarrow> dict) \<Rightarrow> store \<Rightarrow> conflict \<Rightarrow> typst_error + content" where
  "render_conflict pos_of s x =
     conflict_box (conflict_topic_key x) (map pos_of (member_claims s x)) (conflict_resolution x)"

text \<open>Modelled from the spec: the status of a BackendResult, one of ok, failed and
  timed-out (section 3; the backend's models are missing).\<close>

datatype result_status = ResultOk | ResultFailed | ResultTimedOut

text \<open>Modelled from the spec: BackendResult (section 3; the backend's models are
  missing).\<close>

record backend_result =
  backend_name :: string
  result_status :: result_status
  raw_claims :: "raw_draft list"
  error_detail :: "string option"

text \<open>Modelled from the spec: what an adapter's task ends with: success, an
  application-level failure, or its deadline (section 4.2; the Dispatcher's code is
  missing).\<close>

datatype adapter_outcome = Returned "raw_draft list" | Errored string | DeadlineExceeded

text \<open>Modelled from the spec: an adapter that failed or timed out (section 4.2; the
  Dispatcher's code is missing).\<close>

fun failed_outcome :: "adapter_outcome \<Rightarrow> bool" where
  "failed_outcome (Returned ds) = False"
| "failed_outcome (Errored why) = True"
| "failed_outcome DeadlineExceeded = True"

text \<open>Modelled from the spec: the one BackendResult the Dispatcher emits when a task
  completes (section 4.2; the Dispatcher's code is missing).\<close>

fun emit_result :: "string \<Rightarrow> adapter_outcome \<Rightarrow> backend_result" where
  "emit_result name (Returned ds) =
     \<lparr>backend_name = name, result_status = ResultOk, raw_claims = ds, error_detail = None\<rparr>"
| "emit_result name (Errored why) =
     \<lparr>backend_name = name, result_status = ResultFailed, raw_claims = [],
      error_detail = Some why\<rparr>"
| "emit_result name DeadlineExceeded =
     \<lparr>backend_name = name, result_status = ResultTimedOut, raw_claims = [],
      error_detail = Some ''timed out''\<rparr>"

text \<open>Modelled from the spec: the results of a round in arrival order, one per adapter
  (section 4.2; the Dispatcher's code is missing).\<close>

definition dispatch :: "(string \<times> adapter_outcome) list \<Rightarrow> backend_result list" where
  "dispatch arrivals = map (\<lambda>(name, outcome). emit_result name outcome) arrivals"

text \<open>Modelled from the spec: the drafts of a result that parse; a malformed draft is
  dropped (section 7; the Synthesizer's code is missing).\<close>

fun parsed_drafts :: "raw_draft list \<Rightarrow> draft list" where
  "parsed_drafts [] = []"
| "parsed_drafts (Parsed d # ds) = d # parsed_drafts ds"
| "parsed_drafts (Malformed # ds) = parsed_drafts ds"

text \<open>Modelled from the spec: the event \<^verbatim>\<open>{type: backend_update, name, status,
  claim_count?, error?}\<close> for a result (sections 6 and 7; the Session Controller's code is
  missing). The event is a value of the front end's \<^verbatim>\<open>WSMessage\<close>.\<close>

definition backend_update_event :: "backend_result \<Rightarrow> WSMessage" where
  "backend_update_event r =
     (if result_status r = ResultOk
      then BackendUpdateMsg (backend_name r) UpdateDone
             (Some (int (length (parsed_drafts (raw_claims r))))) (error_detail r)
      else BackendUpdateMsg (backend_name r) UpdateFailed None (error_detail r))"

text \<open>Modelled from the spec: the states of the Session Controller: idle, dispatching,
  synthesizing, generating, done and failed (section 4.6; its code is missing).\<close>

datatype session_stage =
  StageIdle | StageDispatching | StageSynthesizing | StageGenerating | StageDone | StageFailed

text \<open>Modelled from the spec: the Session (section 3) with its stage, the per-backend
  status record, the detail of a fatal failure and the outbound stream (the Session
  Controller's code is missing).\<close>

record session =
  sess_store :: store
  sess_stage :: session_stage
  sess_statuses :: "string \<rightharpoonup> backend_status"
  sess_detail :: "string option"
  sess_events :: "WSMessage list"

text \<open>Modelled from the spec: a Session before its first query, idle and with an empty
  Claim Store (section 4.6; the Session Controller's code is missing).\<close>

definition new_session :: session where
  "new_session =
     \<lparr>sess_store = empty_store, sess_stage = StageIdle, sess_statuses = Map.empty,
      sess_detail = None, sess_events = []\<rparr>"

text \<open>Modelled from the spec: the Synthesizer on one BackendResult. An ok result has
  each of its drafts added or merged; a failed or timed-out one records no claims and
  updates the per-backend status (section 4.3; the Synthesizer's code is missing).\<close>

definition process_result :: "strategy \<Rightarrow> backend_result \<Rightarrow> session \<Rightarrow> session" where
  "process_result strat r sess =
     (if result_status r = ResultOk then
        sess\<lparr>sess_store :=
               fold (add_or_merge_claim strat (backend_name r))
                 (parsed_drafts (raw_claims r)) (sess_store sess),
             sess_statuses := (sess_statuses sess)(backend_name r \<mapsto> Done),
             sess_events := sess_events sess @ [backend_update_event r]\<rparr>
      else
        sess\<lparr>sess_statuses := (sess_statuses sess)(backend_name r \<mapsto> Failed),
             sess_events := sess_events sess @ [backend_update_event r]\<rparr>)"

text \<open>Modelled from the spec: the part of the failure detail that names one failed
  backend and says why (section 4.2; the Dispatcher's code is missing).\<close>

definition failure_line :: "backend_result \<Rightarrow> string" where
  "failure_line r =
     backend_name r @ '': '' @ (case error_detail r of None \<Rightarrow> '''' | Some why \<Rightarrow> why) @ ''; ''"

text \<open>Modelled from the spec: the detail of \<^verbatim>\<open>AllBackendsFailed\<close>, which enumerates
  the backends that failed and why (section 4.2; the Dispatcher's code is missing).\<close>

definition failure_detail :: "backend_result list \<Rightarrow> string" where
  "failure_detail results =
     concat (map failure_line (filter (\<lambda>r. result_status r \<noteq> ResultOk) results))"

text \<open>Modelled from the spec: one round. The results are processed as they arrive;
  when every adapter failed or timed out the Session enters \<^verbatim>\<open>failed\<close> with the detail,
  otherwise it goes on through \<^verbatim>\<open>synthesizing\<close> and \<^verbatim>\<open>generating\<close> to \<^verbatim>\<open>done\<close>
  (sections 4.2, 4.3 and 4.6; the Session Controller's code is missing).\<close>

definition run_round :: "strategy \<Rightarrow> (string \<times> adapter_outcome) list \<Rightarrow> session \<Rightarrow> session" where
  "run_round strat arrivals sess =
     (let results = dispatch arrivals;
          s1 = fold (process_result strat) results (sess\<lparr>sess_stage := StageDispatching\<rparr>)
      in if list_all (\<lambda>r. result_status r \<noteq> ResultOk) results then
           s1\<lparr>sess_stage := StageFailed,
              sess_detail := Some (failure_detail results),
              sess_events := sess_events s1 @ [ErrorMsg (failure_detail results)]\<rparr>
         else s1\<lparr>sess_stage := StageDone\<rparr>)"

section \<open>The scenarios of section 8\<close>

text \<open>
  A strategy to run the scenarios with: every draft falls under the topic key
  \<^verbatim>\<open>acme-2025-revenue\<close>, and two texts are duplicates when they state the same figure
  (the same digits in the same order) and conflict otherwise. Backend A reports
  \<^verbatim>\<open>Revenue is $2.1B\<close>; backend B reports \<^verbatim>\<open>Revenue is $1.8B\<close> in the first scenario and
  \<^verbatim>\<open>Revenue of 2.1 billion\<close> in the second.
\<close>

definition figure :: "string \<Rightarrow> string" where
  "figure t = filter (\<lambda>ch. ch \<in> set ''0123456789'') t"

definition scenario_strategy :: strategy where
  "scenario_strategy =
     \<lparr>topic_key_of = (\<lambda>t. ''acme-2025-revenue''),
      classify = (\<lambda>a b. if figure a = figure b then Duplicate else Conflicting)\<rparr>"

definition draft_A :: draft where
  "draft_A = \<lparr>draft_text = ''Revenue is $2.1B'', draft_url = Some ''https://acme.example/report'',
              draft_source_id = None\<rparr>"

definition draft_B_conflicting :: draft where
  "draft_B_conflicting = \<lparr>draft_text = ''Revenue is $1.8B'', draft_url = None, draft_source_id = None\<rparr>"






text \<open>A way to write a Claim as a position: its backends in the order of its Citations,
  and its text.\<close>

fun join_names :: "string list \<Rightarrow> string" where
  "join_names [] = ''''"
| "join_names [n] = n"
| "join_names (n # ns) = n @ '', '' @ join_names ns"

definition claim_position :: "claim \<Rightarrow> dict" where
  "claim_position c =
     [(''source'', join_names (map llm_source (citations c))), (''claim'', claim_text c)]"

section \<open>The message handler\<close>

lemma get_prop_defined:
  "get_prop msg k = Inr v \<Longrightarrow> \<exists>w. get_prop msg k' = Inr w"
  by (cases msg) (auto split: option.splits)

lemma message_json_type: "get_prop (message_json m) ''type'' = Inr (JStr (message_type m))"
  by (cases m) (auto simp: optional_member_def split: option.splits)

lemma message_type_not_document: "message_type m \<noteq> ''document''"
  by (cases m) auto

lemma onmessage_report:
  "get_prop msg ''type'' = Inr (JStr ''report'') \<Longrightarrow>
   \<exists>v. get_prop msg ''typst_source'' = Inr v \<and> onmessage msg s = Inr (s\<lparr>typstSource := v\<rparr>)"
proof -
  assume t: "get_prop msg ''type'' = Inr (JStr ''report'')"
  from get_prop_defined[OF t] obtain v where v: "get_prop msg ''typst_source'' = Inr v"
    by blast
  with t show ?thesis by (simp add: onmessage_def)
qed

lemma onmessage_changes_typstSource:
  "onmessage msg s = Inr s' \<Longrightarrow> typstSource s' \<noteq> typstSource s \<Longrightarrow>
   get_prop msg ''type'' = Inr (JStr ''report'') \<and> get_prop msg ''typst_source'' = Inr (typstSource s')"
  by (auto simp: onmessage_def split: sum.splits if_splits)

lemma onmessage_ignores_document:
  "get_prop msg ''type'' = Inr (JStr ''document'') \<Longrightarrow> onmessage msg s = Inr s"
  by (simp add: onmessage_def)

text \<open>
  C1, as the code has it. No variant of \<^verbatim>\<open>WSMessage\<close> has the type \<^verbatim>\<open>document\<close>: the
  report travels as \<^verbatim>\<open>{type: "report", typst_source}\<close>. The handler sets \<^verbatim>\<open>typstSource\<close>
  to the \<^verbatim>\<open>typst_source\<close> member of every event whose type is \<^verbatim>\<open>report\<close>, changes
  \<^verbatim>\<open>typstSource\<close> on no other event, and leaves the whole state alone on an event whose
  type is \<^verbatim>\<open>document\<close>.
\<close>

theorem onmessage_document_state_from_report:
  "message_type m \<noteq> ''document''
   \<and> onmessage (message_json (ReportMsg src)) s = Inr (s\<lparr>typstSource := JStr src\<rparr>)
   \<and> (get_prop msg ''type'' = Inr (JStr ''report'') \<longrightarrow>
        (\<exists>v. get_prop msg ''typst_source'' = Inr v \<and> onmessage msg s = Inr (s\<lparr>typstSource := v\<rparr>)))
   \<and> (onmessage msg s = Inr s' \<and> typstSource s' \<noteq> typstSource s \<longrightarrow>
        get_prop msg ''type'' = Inr (JStr ''report'')
        \<and> get_prop msg ''typst_source'' = Inr (typstSource s'))
   \<and> (get_prop msg ''type'' = Inr (JStr ''document'') \<longrightarrow> onmessage msg s = Inr s)"
proof -
  have "onmessage (message_json (ReportMsg src)) s = Inr (s\<lparr>typstSource := JStr src\<rparr>)"
    by (simp add: onmessage_def)
  then show ?thesis
    using message_type_not_document[of m] onmessage_report[of msg s]
      onmessage_changes_typstSource[of msg s s'] onmessage_ignores_document[of msg s]
    by blast
qed

theorem onmessage_document_state_from_report_witness:
  "get_prop (JObj [(''type'', JStr ''report''), (''typst_source'', JStr ''= Findings'')]) ''type''
     = Inr (JStr ''report'')
   \<and> onmessage (JObj [(''type'', JStr ''report''), (''typst_source'', JStr ''= Findings'')]) ws_initial
     = Inr (ws_initial\<lparr>typstSource := JStr ''= Findings''\<rparr>)
   \<and> typstSource (ws_initial\<lparr>typstSource := JStr ''= Findings''\<rparr>) \<noteq> typstSource ws_initial
   \<and> get_prop (JObj [(''type'', JStr ''document'')]) ''type'' = Inr (JStr ''document'')
   \<and> onmessage (JObj [(''type'', JStr ''document'')]) ws_initial = Inr ws_initial"
  using onmessage_document_state_from_report
    [of "ReportMsg ''= Findings''" "''= Findings''" ws_initial
        "JObj [(''type'', JStr ''report''), (''typst_source'', JStr ''= Findings'')]"
        "ws_initial\<lparr>typstSource := JStr ''= Findings''\<rparr>"]
    onmessage_document_state_from_report
    [of "ReportMsg ''= Findings''" "''= Findings''" ws_initial
        "JObj [(''type'', JStr ''document'')]" ws_initial]
  by (simp add: ws_initial_def)

text \<open>
  C1, as the claim states it, fails: an event \<^verbatim>\<open>{type: "document", document: ...}\<close>
  changes nothing in the client's state, and the document state is updated from an
  event of another type, \<^verbatim>\<open>report\<close>.
\<close>

theorem onmessage_document_counterexample:
  "onmessage (JObj [(''type'', JStr ''document''),
                    (''document'', JObj [(''sections'', JArr [])])]) ws_initial
     = Inr ws_initial
   \<and> onmessage (JObj [(''type'', JStr ''report''), (''typst_source'', JStr ''= Findings'')])
       ws_initial
     = Inr (ws_initial\<lparr>typstSource := JStr ''= Findings''\<rparr>)
   \<and> typstSource (ws_initial\<lparr>typstSource := JStr ''= Findings''\<rparr>) \<noteq> typstSource ws_initial"
  by (simp add: onmessage_def ws_initial_def)

section \<open>The backend statuses of a status event\<close>





section \<open>The conflict callout lists every position\<close>

lemma key_has_value: "k \<in> set (keys d) \<longleftrightarrow> (\<exists>v. map_of d k = Some v)"
proof -
  have "k \<in> set (keys d) \<longleftrightarrow> map_of d k \<noteq> None"
    by (simp add: keys_def map_of_eq_None_iff)
  then show ?thesis by auto
qed

lemma position_item_ok:
  assumes s: "''source'' \<in> set (keys pos)" and c: "''claim'' \<in> set (keys pos)"
  shows "\<exists>item. position_item pos = Inr item \<and> is_item item \<and> plain item = listed pos"
proof -
  from s obtain src where src: "map_of pos ''source'' = Some src"
    by (auto simp: key_has_value)
  from c obtain cl where cl: "map_of pos ''claim'' = Some cl"
    by (auto simp: key_has_value)
  show ?thesis
  proof (cases "map_of pos ''citation''")
    case None
    then have "''citation'' \<notin> set (keys pos)"
      by (simp add: key_has_value)
    with src cl None show ?thesis
      by (simp add: position_item_def field_def listed_def)
  next
    case (Some cit)
    then have "''citation'' \<in> set (keys pos)"
      by (simp add: key_has_value)
    with src cl Some show ?thesis
      by (simp add: position_item_def field_def listed_def)
  qed
qed

lemma position_items_ok:
  "\<forall>pos \<in> set positions. ''source'' \<in> set (keys pos) \<and> ''claim'' \<in> set (keys pos) \<Longrightarrow>
   \<exists>items. position_items positions = Inr items \<and> list_all is_item items
     \<and> map plain items = map listed positions"
proof (induction positions)
  case Nil
  then show ?case by simp
next
  case (Cons pos rest)
  then obtain items where r: "position_items rest = Inr items" "list_all is_item items"
      "map plain items = map listed rest"
    by auto
  from Cons.prems obtain item where
    i: "position_item pos = Inr item" "is_item item" "plain item = listed pos"
    using position_item_ok[of pos] by auto
  show ?case using r i by simp
qed

lemma item_not_italic: "is_item c \<Longrightarrow> \<not> is_italic c"
  by (cases c) auto

lemma filter_items:
  "list_all is_item items \<Longrightarrow> filter is_item items = items \<and> filter is_italic items = []"
  by (induction items) (auto simp: item_not_italic)

lemma resolution_part_items: "filter is_item (resolution_part r) = []"
  by (auto simp: resolution_part_def split: option.splits)

lemma resolution_part_lines:
  "map plain (filter is_italic (resolution_part r)) =
     (case r of None \<Rightarrow> [] | Some t \<Rightarrow> [''Resolution: '' @ t])"
  by (auto simp: resolution_part_def split: option.splits)

lemma position_item_is_item: "position_item pos = Inr item \<Longrightarrow> is_item item"
  by (auto simp: position_item_def split: sum.splits if_splits)

lemma position_items_shape:
  "position_items ps = Inr items \<Longrightarrow> list_all is_item items \<and> length items = length ps"
proof (induction ps arbitrary: items)
  case Nil
  then show ?case by simp
next
  case (Cons pos rest)
  then show ?case
    by (auto split: sum.splits simp: position_item_is_item)
qed

lemma conflict_box_entries_count:
  assumes a: "conflict_box topic positions resolution = Inr blk"
  shows "length (entries blk) = length positions"
proof -
  from a obtain items where i: "position_items positions = Inr items"
    by (auto simp: conflict_box_def split: sum.splits)
  from position_items_shape[OF i] filter_items[of items] a i show ?thesis
    by (auto simp: conflict_box_def entries_def resolution_part_items)
qed

text \<open>
  C2. For positions that each name a source and a claim, the callout is a block headed
  \<^verbatim>\<open>Disputed: <topic>\<close> whose list items are, in order, one per position, each showing
  the position's backend, its claim text and (when the position has one) its citation;
  an italic line \<^verbatim>\<open>Resolution: <text>\<close> follows exactly when a resolution is given.
\<close>

theorem conflict_box_lists_positions:
  assumes "\<forall>pos \<in> set positions. ''source'' \<in> set (keys pos) \<and> ''claim'' \<in> set (keys pos)"
  shows "\<exists>blk. conflict_box topic positions resolution = Inr blk
           \<and> plain (hd (block_body blk)) = ''Disputed: '' @ topic
           \<and> map plain (entries blk) = map listed positions
           \<and> resolution_lines blk =
               (case resolution of None \<Rightarrow> [] | Some r \<Rightarrow> [''Resolution: '' @ r])"
proof -
  from position_items_ok[OF assms] obtain items where
    r: "position_items positions = Inr items" "list_all is_item items"
      "map plain items = map listed positions"
    by auto
  show ?thesis
    using r filter_items[OF r(2)]
    by (simp add: conflict_box_def entries_def resolution_lines_def
        resolution_part_items resolution_part_lines)
qed

theorem conflict_box_lists_positions_witness:
  "set (keys [(''source'', ''Gemini''), (''claim'', ''$2.1B''), (''citation'', ''Reuters, Jan 2026'')])
     = {''source'', ''claim'', ''citation''}
   \<and> set (keys [(''source'', ''Grok''), (''claim'', ''$1.8B'')]) = {''source'', ''claim''}
   \<and> map plain (entries (projr (conflict_box ''Revenue figures''
        [[(''source'', ''Gemini''), (''claim'', ''$2.1B''), (''citation'', ''Reuters, Jan 2026'')],
         [(''source'', ''Grok''), (''claim'', ''$1.8B'')]]
        (Some ''Gemini cites the audited figure''))))
     = [''Gemini: $2.1B(Reuters, Jan 2026)'', ''Grok: $1.8B'']
   \<and> resolution_lines (projr (conflict_box ''Revenue figures''
        [[(''source'', ''Gemini''), (''claim'', ''$2.1B''), (''citation'', ''Reuters, Jan 2026'')],
         [(''source'', ''Grok''), (''claim'', ''$1.8B'')]]
        (Some ''Gemini cites the audited figure'')))
     = [''Resolution: Gemini cites the audited figure'']"
  using conflict_box_lists_positions
    [of "[[(''source'', ''Gemini''), (''claim'', ''$2.1B''), (''citation'', ''Reuters, Jan 2026'')],
          [(''source'', ''Grok''), (''claim'', ''$1.8B'')]]"
        "''Revenue figures''" "Some ''Gemini cites the audited figure''"]
  by (auto simp: keys_def listed_def)

section \<open>The Typst hook\<close>

lemma compile_skip:
  "source = '''' \<or> source = lastSource st \<Longrightarrow> compile env source st = Finished st"
  by (auto simp: compile_def)

lemma compile_lastSource:
  "source \<noteq> '''' \<Longrightarrow> lastSource (run_state (compile env source st)) = source"
  by (auto simp: compile_def getTypst_def catch_finally_def Let_def
      split: option.splits settled.splits)

lemma compile_svg_calls:
  "length (svg_calls (run_state (compile env source st))) \<le> Suc (length (svg_calls st))"
  by (auto simp: compile_def getTypst_def catch_finally_def Let_def
      split: option.splits settled.splits)

text \<open>
  C9. Called with the empty source, or with the source it was last called with, \<^verbatim>\<open>compile\<close>
  returns at once and the whole state (\<^verbatim>\<open>svg\<close>, \<^verbatim>\<open>compiling\<close>, \<^verbatim>\<open>error\<close>, the
  compiler's call log) is what it was. Hence a second call with the same source, whatever
  the first one came to and whatever the compiler would now answer, changes nothing, and
  the two calls together invoke the compiler at most once.
\<close>

theorem compile_same_source_once:
  "(source = '''' \<or> source = lastSource st \<longrightarrow> compile env source st = Finished st)
   \<and> compile env' source (run_state (compile env source st))
       = Finished (run_state (compile env source st))
   \<and> length (svg_calls (run_state (compile env' source (run_state (compile env source st)))))
       \<le> Suc (length (svg_calls st))"
proof -
  have second: "compile env' source (run_state (compile env source st))
      = Finished (run_state (compile env source st))"
  proof (cases "source = ''''")
    case True
    then show ?thesis by (simp add: compile_skip)
  next
    case False
    then show ?thesis by (simp add: compile_skip compile_lastSource)
  qed
  show ?thesis
    using second compile_svg_calls[of env source st] by (simp add: compile_skip)
qed

theorem compile_same_source_once_witness:
  "lastSource (typst_initial\<lparr>lastSource := ''= Findings'', svg := ''<svg/>''\<rparr>) = ''= Findings''
   \<and> compile \<lparr>init_typst = Resolves (), svg_of = (\<lambda>src. Resolves (''<svg>'' @ src))\<rparr>
       ''= Findings'' (typst_initial\<lparr>lastSource := ''= Findings'', svg := ''<svg/>''\<rparr>)
     = Finished (typst_initial\<lparr>lastSource := ''= Findings'', svg := ''<svg/>''\<rparr>)
   \<and> svg_calls (run_state (compile \<lparr>init_typst = Resolves (), svg_of = (\<lambda>src. Resolves (''<svg>'' @ src))\<rparr>
       ''= Findings'' (run_state (compile \<lparr>init_typst = Resolves (), svg_of = (\<lambda>src. Resolves (''<svg>'' @ src))\<rparr>
       ''= Findings'' typst_initial))))
     = [''= Findings'']"
  using compile_same_source_once
    [of "''= Findings''" "typst_initial\<lparr>lastSource := ''= Findings'', svg := ''<svg/>''\<rparr>"
        "\<lparr>init_typst = Resolves (), svg_of = (\<lambda>src. Resolves (''<svg>'' @ src))\<rparr>"
        "\<lparr>init_typst = Resolves (), svg_of = (\<lambda>src. Resolves (''<svg>'' @ src))\<rparr>"]
  by (simp add: compile_def getTypst_def typst_initial_def)

text \<open>
  C10. For a source that is compiled (not empty, not the last one): when the compilation
  throws, \<^verbatim>\<open>compile\<close> finishes with \<^verbatim>\<open>error\<close> set to the failure's message (the
  \<^verbatim>\<open>Error\<close>'s own message, or \<^verbatim>\<open>Typst compilation failed\<close> for any other thrown value),
  \<^verbatim>\<open>svg\<close> as it was before the call and \<^verbatim>\<open>compiling\<close> false. When the compilation
  succeeds, \<^verbatim>\<open>compile\<close> finishes with the new \<^verbatim>\<open>svg\<close>, no error and \<^verbatim>\<open>compiling\<close>
  false. Only when an awaited promise never settles does \<^verbatim>\<open>compile\<close> not finish, and
  \<^verbatim>\<open>compiling\<close> stays true. So whenever \<^verbatim>\<open>compile\<close> finishes, \<^verbatim>\<open>compiling\<close> is false.
\<close>

theorem compile_failure_keeps_svg:
  assumes "source \<noteq> ''''" and "source \<noteq> lastSource st"
  shows "(compilation env st source = Rejects err \<longrightarrow>
            (\<exists>st'. compile env source st = Finished st'
               \<and> error st' = thrown_message err \<and> svg st' = svg st \<and> \<not> compiling st'))
         \<and> thrown_message (ErrorObj msg) = msg
         \<and> thrown_message NonError = ''Typst compilation failed''
         \<and> (compilation env st source = Resolves result \<longrightarrow>
            (\<exists>st'. compile env source st = Finished st'
               \<and> svg st' = result \<and> error st' = '''' \<and> \<not> compiling st'))
         \<and> (compilation env st source = NeverSettles \<longrightarrow>
            (\<exists>st'. compile env source st = Pending st' \<and> compiling st' \<and> svg st' = svg st))
         \<and> (\<forall>st'. compile env source st = Finished st' \<longrightarrow> \<not> compiling st')"
  using assms
  by (auto simp: compile_def compilation_def getTypst_def catch_finally_def Let_def
      split: option.splits settled.splits)

theorem compile_failure_keeps_svg_witness:
  "''= Broken'' \<noteq> ''''
   \<and> ''= Broken'' \<noteq> lastSource (typst_initial\<lparr>lastSource := ''= Findings'', svg := ''<svg/>''\<rparr>)
   \<and> compilation \<lparr>init_typst = Resolves (), svg_of = (\<lambda>src. Rejects (ErrorObj ''unclosed delimiter''))\<rparr>
       (typst_initial\<lparr>lastSource := ''= Findings'', svg := ''<svg/>''\<rparr>) ''= Broken''
     = Rejects (ErrorObj ''unclosed delimiter'')
   \<and> compile \<lparr>init_typst = Resolves (), svg_of = (\<lambda>src. Rejects (ErrorObj ''unclosed delimiter''))\<rparr>
       ''= Broken'' (typst_initial\<lparr>lastSource := ''= Findings'', svg := ''<svg/>''\<rparr>)
     = Finished \<lparr>svg = ''<svg/>'', compiling = False, error = ''unclosed delimiter'',
         lastSource = ''= Broken'', initPromise = Some (Resolves ()),
         svg_calls = [''= Broken'']\<rparr>
   \<and> compile \<lparr>init_typst = Resolves (), svg_of = (\<lambda>src. Rejects NonError)\<rparr>
       ''= Broken'' (typst_initial\<lparr>lastSource := ''= Findings'', svg := ''<svg/>''\<rparr>)
     = Finished \<lparr>svg = ''<svg/>'', compiling = False, error = ''Typst compilation failed'',
         lastSource = ''= Broken'', initPromise = Some (Resolves ()),
         svg_calls = [''= Broken'']\<rparr>
   \<and> compilation \<lparr>init_typst = Resolves (), svg_of = (\<lambda>src. Resolves (''<svg>'' @ src))\<rparr>
       (typst_initial\<lparr>lastSource := ''= Findings'', svg := ''<svg/>''\<rparr>) ''= Next''
     = Resolves ''<svg>= Next''
   \<and> compile \<lparr>init_typst = Resolves (), svg_of = (\<lambda>src. Resolves (''<svg>'' @ src))\<rparr>
       ''= Next'' (typst_initial\<lparr>lastSource := ''= Findings'', svg := ''<svg/>''\<rparr>)
     = Finished \<lparr>svg = ''<svg>= Next'', compiling = False, error = '''',
         lastSource = ''= Next'', initPromise = Some (Resolves ()),
         svg_calls = [''= Next'']\<rparr>"
  using compile_failure_keeps_svg
    [of "''= Broken''" "typst_initial\<lparr>lastSource := ''= Findings'', svg := ''<svg/>''\<rparr>"
        "\<lparr>init_typst = Resolves (), svg_of = (\<lambda>src. Rejects (ErrorObj ''unclosed delimiter''))\<rparr>"
        "ErrorObj ''unclosed delimiter''"]
    compile_failure_keeps_svg
    [of "''= Next''" "typst_initial\<lparr>lastSource := ''= Findings'', svg := ''<svg/>''\<rparr>"
        "\<lparr>init_typst = Resolves (), svg_of = (\<lambda>src. Resolves (''<svg>'' @ src))\<rparr>"
        "ErrorObj ''x''" "''x''" "''<svg>= Next''"]
  by (simp add: compile_def compilation_def getTypst_def catch_finally_def typst_initial_def)

section \<open>Merging duplicate drafts\<close>



lemma merge_first_keys:
  "merge_first P f cs = Some cs' \<Longrightarrow> (\<And>c. claim_id (f c) = claim_id c \<and> topic_key (f c) = topic_key c)
   \<Longrightarrow> map (\<lambda>c. (claim_id c, topic_key c)) cs' = map (\<lambda>c. (claim_id c, topic_key c)) cs"
  by (induction cs arbitrary: cs') (auto split: if_splits)

lemma claims_link_conflict [simp]:
  "claims (link_conflict k ids s) = claims s" "next_claim_id (link_conflict k ids s) = next_claim_id s"
  by (auto simp: link_conflict_def)









section \<open>Conflicts keep two members\<close>

lemma claim_keys_merge:
  assumes "merge_first P (merge_into b d) cs = Some cs'"
  shows "(\<lambda>c. (claim_id c, topic_key c)) ` set cs' = (\<lambda>c. (claim_id c, topic_key c)) ` set cs"
proof -
  have "map (\<lambda>c. (claim_id c, topic_key c)) cs' = map (\<lambda>c. (claim_id c, topic_key c)) cs"
    using assms by (rule merge_first_keys) (simp add: merge_into_def)
  then have "set (map (\<lambda>c. (claim_id c, topic_key c)) cs') = set (map (\<lambda>c. (claim_id c, topic_key c)) cs)"
    by simp
  then show ?thesis by simp
qed

lemma claim_key_member: "c \<in> set (claims s) \<Longrightarrow> (claim_id c, topic_key c) \<in> claim_keys s"
  by (simp add: claim_keys_def)

lemma conflict_ok_mono:
  "conflict_ok s x \<Longrightarrow> claim_keys s \<subseteq> claim_keys s' \<Longrightarrow> conflict_ok s' x"
  by (auto simp: conflict_ok_def)

lemma ids_below_keys:
  "(\<forall>c \<in> set (claims s). claim_id c < n) \<longleftrightarrow> (\<forall>p \<in> claim_keys s. fst p < n)"
  by (auto simp: claim_keys_def)

lemma invariant_merge:
  assumes inv: "store_invariant s"
      and m: "merge_first P (merge_into b d) (claims s) = Some cs"
  shows "store_invariant (s\<lparr>claims := cs\<rparr>)"
proof -
  have k: "claim_keys (s\<lparr>claims := cs\<rparr>) = claim_keys s"
    using claim_keys_merge[OF m] by (simp add: claim_keys_def)
  from inv have "\<forall>p \<in> claim_keys s. fst p < next_claim_id s"
    by (simp add: store_invariant_def ids_below_keys)
  with k have "\<forall>p \<in> claim_keys (s\<lparr>claims := cs\<rparr>). fst p < next_claim_id s"
    by simp
  then have "\<forall>c \<in> set (claims (s\<lparr>claims := cs\<rparr>)). claim_id c < next_claim_id s"
    by (simp only: ids_below_keys)
  moreover have "\<forall>x \<in> set (conflicts (s\<lparr>claims := cs\<rparr>)). conflict_ok (s\<lparr>claims := cs\<rparr>) x"
    using inv k by (auto simp: store_invariant_def intro: conflict_ok_mono)
  ultimately show ?thesis by (simp add: store_invariant_def)
qed

lemma card_two: "finite R \<Longrightarrow> R \<noteq> {} \<Longrightarrow> n \<notin> R \<Longrightarrow> 2 \<le> card (insert n R)"
proof -
  assume f: "finite R" and ne: "R \<noteq> {}" and n: "n \<notin> R"
  then have "0 < card R" by (simp add: card_gt_0_iff)
  with f n show ?thesis by simp
qed

lemma card_union_ge: "finite M \<Longrightarrow> finite N \<Longrightarrow> 2 \<le> card M \<Longrightarrow> 2 \<le> card (M \<union> N)"
proof -
  assume f: "finite M" "finite N" and c: "2 \<le> card M"
  have "card M \<le> card (M \<union> N)" using f by (intro card_mono) auto
  with c show ?thesis by simp
qed

lemma invariant_link:
  assumes ids: "finite ids" "2 \<le> card ids" "\<forall>i \<in> ids. (i, k) \<in> claim_keys s"
      and ok: "\<forall>x \<in> set (conflicts s). conflict_ok s x"
  shows "\<forall>x \<in> set (conflicts (link_conflict k ids s)). conflict_ok (link_conflict k ids s) x"
proof -
  have keys: "claim_keys (link_conflict k ids s) = claim_keys s"
    by (simp add: claim_keys_def)
  have "conflict_ok s y" if y: "y \<in> set (conflicts (link_conflict k ids s))" for y
  proof (cases "\<exists>x \<in> set (conflicts s). conflict_topic_key x = k")
    case True
    then have c: "conflicts (link_conflict k ids s) =
        map (\<lambda>x. if conflict_topic_key x = k
                  then x\<lparr>member_claim_ids := member_claim_ids x \<union> ids\<rparr> else x) (conflicts s)"
      by (simp add: link_conflict_def)
    from y obtain x where x: "x \<in> set (conflicts s)"
      and yx: "y = (if conflict_topic_key x = k
                    then x\<lparr>member_claim_ids := member_claim_ids x \<union> ids\<rparr> else x)"
      unfolding c by auto
    from ok x have okx: "conflict_ok s x" by blast
    show ?thesis
    proof (cases "conflict_topic_key x = k")
      case False
      with okx yx show ?thesis by simp
    next
      case True
      then have "y = x\<lparr>member_claim_ids := member_claim_ids x \<union> ids\<rparr>"
        using yx by simp
      moreover have "finite (member_claim_ids x \<union> ids)"
        using okx ids by (simp add: conflict_ok_def)
      moreover have "2 \<le> card (member_claim_ids x \<union> ids)"
        using okx ids by (simp add: conflict_ok_def card_union_ge)
      moreover have "\<forall>i \<in> member_claim_ids x \<union> ids. (i, conflict_topic_key x) \<in> claim_keys s"
        using okx ids True by (auto simp: conflict_ok_def)
      ultimately show ?thesis by (simp add: conflict_ok_def)
    qed
  next
    case False
    then have c: "conflicts (link_conflict k ids s) = conflicts s @
        [\<lparr>conflict_id = next_conflict_id s, conflict_topic_key = k,
          member_claim_ids = ids, conflict_resolution = None\<rparr>]"
      by (simp add: link_conflict_def)
    from y have "y \<in> set (conflicts s) \<or> y = \<lparr>conflict_id = next_conflict_id s,
        conflict_topic_key = k, member_claim_ids = ids, conflict_resolution = None\<rparr>"
      unfolding c by auto
    then show ?thesis
    proof
      assume "y \<in> set (conflicts s)"
      with ok show ?thesis by blast
    next
      assume "y = \<lparr>conflict_id = next_conflict_id s,
        conflict_topic_key = k, member_claim_ids = ids, conflict_resolution = None\<rparr>"
      with ids show ?thesis by (simp add: conflict_ok_def)
    qed
  qed
  then show ?thesis
    using keys by (simp add: conflict_ok_def)
qed

lemma invariant_add:
  assumes inv: "store_invariant s"
  shows "store_invariant (add_or_merge_claim strat b d s)"
proof (cases "merge_first (is_duplicate strat d) (merge_into b d) (claims s)")
  case (Some cs)
  then show ?thesis
    using invariant_merge[OF inv Some] by (simp add: add_or_merge_claim_def)
next
  case None
  define n where "n = next_claim_id s"
  define k where "k = topic_key_of strat (draft_text d)"
  define rivals where "rivals = map claim_id (filter (is_rival strat d) (claims s))"
  define s1 where "s1 = s\<lparr>claims := claims s @ [new_claim strat n b d], next_claim_id := Suc n\<rparr>"
  have res: "add_or_merge_claim strat b d s =
      (if rivals = [] then s1 else link_conflict k (insert n (set rivals)) s1)"
    using None by (simp add: add_or_merge_claim_def Let_def n_def k_def rivals_def s1_def)
  have keys1: "claim_keys s1 = insert (n, k) (claim_keys s)"
    by (auto simp: claim_keys_def s1_def new_claim_def k_def)
  have below: "\<forall>c \<in> set (claims s). claim_id c < n"
    using inv by (simp add: store_invariant_def n_def)
  have ids1: "\<forall>c \<in> set (claims s1). claim_id c < next_claim_id s1"
    using below by (auto simp: s1_def new_claim_def less_Suc_eq)
  have ok1: "\<forall>x \<in> set (conflicts s1). conflict_ok s1 x"
  proof
    fix x assume "x \<in> set (conflicts s1)"
    then have "conflict_ok s x" using inv by (simp add: s1_def store_invariant_def)
    then show "conflict_ok s1 x"
      by (rule conflict_ok_mono) (auto simp: keys1)
  qed
  show ?thesis
  proof (cases "rivals = []")
    case True
    then show ?thesis using res ids1 ok1 by (simp add: store_invariant_def)
  next
    case False
    have nr: "n \<notin> set rivals"
      using below by (auto simp: rivals_def)
    have "(claim_id c, k) \<in> claim_keys s" if "c \<in> set (claims s)" "is_rival strat d c" for c
      using that claim_key_member[of c s] by (simp add: is_rival_def k_def)
    then have rk: "\<forall>i \<in> set rivals. (i, k) \<in> claim_keys s1"
      by (auto simp: rivals_def keys1)
    have "\<forall>x \<in> set (conflicts (link_conflict k (insert n (set rivals)) s1)).
            conflict_ok (link_conflict k (insert n (set rivals)) s1) x"
    proof (rule invariant_link)
      show "finite (insert n (set rivals))" by simp
      show "2 \<le> card (insert n (set rivals))"
        using False nr by (intro card_two) auto
      show "\<forall>i \<in> insert n (set rivals). (i, k) \<in> claim_keys s1"
        using rk by (simp add: keys1)
      show "\<forall>x \<in> set (conflicts s1). conflict_ok s1 x" by (rule ok1)
    qed
    then show ?thesis
      using False res ids1 by (simp add: store_invariant_def)
  qed
qed

lemma invariant_resolve:
  assumes inv: "store_invariant s"
  shows "store_invariant (resolve_conflict cid txt s)"
proof -
  have k: "claim_keys (resolve_conflict cid txt s) = claim_keys s"
    by (simp add: claim_keys_def resolve_conflict_def)
  have "conflict_ok s y" if y: "y \<in> set (conflicts (resolve_conflict cid txt s))" for y
  proof -
    from y obtain x where x: "x \<in> set (conflicts s)"
      and yx: "y = (if conflict_id x = cid then x\<lparr>conflict_resolution := Some txt\<rparr> else x)"
      by (auto simp: resolve_conflict_def)
    from inv x have "conflict_ok s x" by (simp add: store_invariant_def)
    with yx show ?thesis by (simp add: conflict_ok_def)
  qed
  then have "\<forall>x \<in> set (conflicts (resolve_conflict cid txt s)). conflict_ok (resolve_conflict cid txt s) x"
    using k by (simp add: conflict_ok_def)
  moreover have "\<forall>c \<in> set (claims (resolve_conflict cid txt s)). claim_id c < next_claim_id (resolve_conflict cid txt s)"
    using inv by (simp add: store_invariant_def resolve_conflict_def)
  ultimately show ?thesis by (simp add: store_invariant_def)
qed

lemma invariant_op: "store_invariant s \<Longrightarrow> store_invariant (apply_store_op strat op s)"
  by (cases op) (simp_all add: invariant_add invariant_resolve)

lemma invariant_run: "store_invariant s \<Longrightarrow> store_invariant (run_ops strat ops s)"
  unfolding run_ops_def
  by (induction ops arbitrary: s) (simp_all add: invariant_op)

lemma invariant_empty: "store_invariant empty_store"
  by (simp add: store_invariant_def empty_store_def)

lemma conflict_ok_members:
  assumes "conflict_ok s x"
  shows "finite (member_claim_ids x) \<and> 2 \<le> card (member_claim_ids x)
     \<and> (\<forall>i \<in> member_claim_ids x. \<exists>c \<in> set (claims s). claim_id c = i \<and> topic_key c = conflict_topic_key x)"
  using assms by (fastforce simp: conflict_ok_def claim_keys_def)

lemma merge_first_ids:
  assumes "merge_first P (merge_into b d) cs = Some cs'"
  shows "map claim_id cs' = map claim_id cs"
proof -
  have "map (\<lambda>c. (claim_id c, topic_key c)) cs' = map (\<lambda>c. (claim_id c, topic_key c)) cs"
    using assms by (rule merge_first_keys) (simp add: merge_into_def)
  then have "map fst (map (\<lambda>c. (claim_id c, topic_key c)) cs')
      = map fst (map (\<lambda>c. (claim_id c, topic_key c)) cs)"
    by simp
  then show ?thesis by (simp add: comp_def)
qed

lemma distinct_ids_add:
  assumes d: "distinct (map claim_id (claims s))"
      and below: "\<forall>c \<in> set (claims s). claim_id c < next_claim_id s"
  shows "distinct (map claim_id (claims (add_or_merge_claim strat b dr s)))"
proof (cases "merge_first (is_duplicate strat dr) (merge_into b dr) (claims s)")
  case (Some cs)
  then show ?thesis
    using d merge_first_ids[OF Some] by (simp add: add_or_merge_claim_def)
next
  case None
  have "claims (add_or_merge_claim strat b dr s)
      = claims s @ [new_claim strat (next_claim_id s) b dr]"
    using None by (simp add: add_or_merge_claim_def Let_def)
  moreover have "next_claim_id s \<notin> claim_id ` set (claims s)"
    using below by auto
  ultimately show ?thesis
    using d by (simp add: new_claim_def)
qed

lemma distinct_ids_op:
  "store_invariant s \<Longrightarrow> distinct (map claim_id (claims s)) \<Longrightarrow>
   distinct (map claim_id (claims (apply_store_op strat op s)))"
  by (cases op) (simp_all add: distinct_ids_add store_invariant_def resolve_conflict_def)

lemma invariant_distinct_run:
  "store_invariant s \<Longrightarrow> distinct (map claim_id (claims s)) \<Longrightarrow>
   store_invariant (run_ops strat ops s) \<and> distinct (map claim_id (claims (run_ops strat ops s)))"
  unfolding run_ops_def
  by (induction ops arbitrary: s) (simp_all add: invariant_op distinct_ids_op)

lemma length_members:
  assumes d: "distinct (map claim_id cs)" and f: "finite M"
      and sub: "M \<subseteq> claim_id ` set cs"
  shows "length (filter (\<lambda>c. claim_id c \<in> M) cs) = card M"
proof -
  have dc: "distinct cs" using d by (simp add: distinct_map)
  have inj: "inj_on claim_id (set cs)" using d by (simp add: distinct_map)
  have "card (set (filter (\<lambda>c. claim_id c \<in> M) cs)) = length (filter (\<lambda>c. claim_id c \<in> M) cs)"
    by (rule distinct_card) (simp add: dc)
  then have "length (filter (\<lambda>c. claim_id c \<in> M) cs) = card (set (filter (\<lambda>c. claim_id c \<in> M) cs))"
    by (rule sym)
  also have "\<dots> = card (claim_id ` set (filter (\<lambda>c. claim_id c \<in> M) cs))"
    using inj by (intro card_image[symmetric]) (auto intro: inj_on_subset)
  also have "claim_id ` set (filter (\<lambda>c. claim_id c \<in> M) cs) = M"
    using sub by auto
  finally show ?thesis .
qed

lemma conflict_ok_ids:
  "conflict_ok s x \<Longrightarrow> member_claim_ids x \<subseteq> claim_id ` set (claims s)"
  by (fastforce simp: conflict_ok_def claim_keys_def)

lemma conflict_box_entries_listed:
  assumes "\<forall>pos \<in> set positions. ''source'' \<in> set (keys pos) \<and> ''claim'' \<in> set (keys pos)"
  shows "\<exists>blk. conflict_box topic positions resolution = Inr blk
           \<and> map plain (entries blk) = map listed positions"
proof -
  from position_items_ok[OF assms] obtain items where
    r: "position_items positions = Inr items" "list_all is_item items"
      "map plain items = map listed positions"
    by auto
  show ?thesis
    using r filter_items[OF r(2)]
    by (simp add: conflict_box_def entries_def resolution_part_items)
qed

text \<open>
  C6. In every store reached from the empty one by add-or-merge and resolve operations,
  each Conflict has a finite set of at least two member ids, and every member is the id
  of a Claim of the store under the Conflict's topic key. Rendered through the callout
  with one position per member Claim (each position naming a source and a claim), such
  a Conflict becomes a block with exactly as many entries as it has members, so never
  fewer than two, one for each member Claim in order. The callout shows one entry for
  each position it is given.
\<close>

theorem conflicts_have_two_members:
  assumes pos: "\<forall>c. ''source'' \<in> set (keys (pos_of c)) \<and> ''claim'' \<in> set (keys (pos_of c))"
  shows "(\<forall>x \<in> set (conflicts (run_ops strat ops empty_store)).
      finite (member_claim_ids x) \<and> 2 \<le> card (member_claim_ids x)
      \<and> (\<forall>i \<in> member_claim_ids x.
            \<exists>c \<in> set (claims (run_ops strat ops empty_store)).
              claim_id c = i \<and> topic_key c = conflict_topic_key x)
      \<and> (\<exists>blk. render_conflict pos_of (run_ops strat ops empty_store) x = Inr blk
            \<and> length (entries blk) = card (member_claim_ids x)
            \<and> 2 \<le> length (entries blk)
            \<and> map plain (entries blk)
                = map (\<lambda>c. listed (pos_of c)) (member_claims (run_ops strat ops empty_store) x)))
   \<and> (conflict_box topic positions resolution = Inr blk' \<longrightarrow>
        length (entries blk') = length positions)"
proof -
  let ?S = "run_ops strat ops empty_store"
  have inv: "store_invariant ?S" and dist: "distinct (map claim_id (claims ?S))"
    using invariant_distinct_run[of empty_store strat ops] invariant_empty
    by (simp_all add: empty_store_def)
  have "finite (member_claim_ids x) \<and> 2 \<le> card (member_claim_ids x)
      \<and> (\<forall>i \<in> member_claim_ids x.
            \<exists>c \<in> set (claims ?S). claim_id c = i \<and> topic_key c = conflict_topic_key x)
      \<and> (\<exists>blk. render_conflict pos_of ?S x = Inr blk
            \<and> length (entries blk) = card (member_claim_ids x)
            \<and> 2 \<le> length (entries blk)
            \<and> map plain (entries blk) = map (\<lambda>c. listed (pos_of c)) (member_claims ?S x))"
    if x: "x \<in> set (conflicts ?S)" for x
  proof -
    from inv x have ok: "conflict_ok ?S x" by (simp add: store_invariant_def)
    note mem = conflict_ok_members[OF ok]
    have len: "length (member_claims ?S x) = card (member_claim_ids x)"
      unfolding member_claims_def
      using dist mem conflict_ok_ids[OF ok] by (intro length_members) auto
    have "\<forall>p \<in> set (map pos_of (member_claims ?S x)).
        ''source'' \<in> set (keys p) \<and> ''claim'' \<in> set (keys p)"
      using pos by auto
    from conflict_box_entries_listed[OF this]
    obtain blk where b: "conflict_box (conflict_topic_key x) (map pos_of (member_claims ?S x))
          (conflict_resolution x) = Inr blk"
      and e: "map plain (entries blk) = map listed (map pos_of (member_claims ?S x))"
      by blast
    from e have "length (map plain (entries blk)) = length (map listed (map pos_of (member_claims ?S x)))"
      by simp
    then have l: "length (entries blk) = card (member_claim_ids x)"
      using len by simp
    show ?thesis
      using mem b e l by (simp add: render_conflict_def comp_def)
  qed
  then show ?thesis
    using conflict_box_entries_count by blast
qed

theorem conflicts_have_two_members_witness:
  "(\<forall>c. keys (claim_position c) = [''source'', ''claim''])
   \<and> conflicts (run_ops scenario_strategy
       [AddOrMerge ''A'' draft_A, AddOrMerge ''B'' draft_B_conflicting] empty_store)
     = [\<lparr>conflict_id = 0, conflict_topic_key = ''acme-2025-revenue'',
          member_claim_ids = {1, 0}, conflict_resolution = None\<rparr>]
   \<and> card {1, 0 :: nat} = 2
   \<and> map (\<lambda>c. (claim_id c, topic_key c)) (claims (run_ops scenario_strategy
       [AddOrMerge ''A'' draft_A, AddOrMerge ''B'' draft_B_conflicting] empty_store))
     = [(0, ''acme-2025-revenue''), (1, ''acme-2025-revenue'')]
   \<and> map plain (entries (projr (render_conflict claim_position
        (run_ops scenario_strategy
           [AddOrMerge ''A'' draft_A, AddOrMerge ''B'' draft_B_conflicting] empty_store)
        \<lparr>conflict_id = 0, conflict_topic_key = ''acme-2025-revenue'',
          member_claim_ids = {1, 0}, conflict_resolution = None\<rparr>)))
     = [''A: Revenue is $2.1B'', ''B: Revenue is $1.8B'']"
  using conflicts_have_two_members
    [of claim_position scenario_strategy
        "[AddOrMerge ''A'' draft_A, AddOrMerge ''B'' draft_B_conflicting]"
        "''Revenue''" "[]" None "Str ''''"]
  by (simp add: run_ops_def add_or_merge_claim_def is_duplicate_def is_rival_def new_claim_def
      link_conflict_def scenario_strategy_def draft_A_def draft_B_conflicting_def figure_def
      empty_store_def new_citation_def conflict_box_def position_item_def field_def keys_def
      resolution_part_def entries_def render_conflict_def member_claims_def claim_position_def)

section \<open>Results, their error details and the failed round\<close>

lemma emit_result_iff:
  "(error_detail (emit_result name outcome) \<noteq> None) = (result_status (emit_result name outcome) \<noteq> ResultOk)"
  by (cases outcome) auto

lemma emit_result_failed:
  "(result_status (emit_result name outcome) \<noteq> ResultOk) = failed_outcome outcome"
  by (cases outcome) auto

lemma emit_result_name: "backend_name (emit_result name outcome) = name"
  by (cases outcome) auto

lemma dispatch_iff:
  assumes "r \<in> set (dispatch arrivals)"
  shows "(error_detail r \<noteq> None) = (result_status r \<noteq> ResultOk)"
proof -
  from assms obtain name outcome where "r = emit_result name outcome"
    by (auto simp: dispatch_def)
  then show ?thesis using emit_result_iff[of name outcome] by simp
qed

lemma events_fold:
  "sess_events (fold (process_result strat) results s) = sess_events s @ map backend_update_event results"
  by (induction results arbitrary: s) (auto simp: process_result_def)

lemma events_round:
  "sess_events (run_round strat arrivals sess) =
     sess_events sess @ map backend_update_event (dispatch arrivals)
     @ (if list_all (\<lambda>r. result_status r \<noteq> ResultOk) (dispatch arrivals)
        then [ErrorMsg (failure_detail (dispatch arrivals))] else [])"
  by (simp add: run_round_def Let_def events_fold)

lemma update_event_iff:
  assumes "(error_detail r \<noteq> None) = (result_status r \<noteq> ResultOk)"
  shows "\<exists>n st c e. backend_update_event r = BackendUpdateMsg n st c e
           \<and> (e \<noteq> None) = (st = UpdateFailed)
           \<and> (st = UpdateFailed) = (result_status r \<noteq> ResultOk)"
  using assms by (auto simp: backend_update_event_def)

text \<open>
  C7. The BackendResult the Dispatcher emits for a task carries an error detail exactly
  when its status is not ok. The same holds for every result of a round, and the
  \<^verbatim>\<open>backend_update\<close> event of each carries an \<^verbatim>\<open>error\<close> exactly when its status is
  \<^verbatim>\<open>failed\<close>, which it is exactly when the result is not ok. These events are what the
  round puts on the stream, in arrival order.
\<close>

theorem error_detail_iff_not_ok:
  "(error_detail (emit_result name outcome) \<noteq> None)
      = (result_status (emit_result name outcome) \<noteq> ResultOk)
   \<and> (\<forall>r \<in> set (dispatch arrivals).
         (error_detail r \<noteq> None) = (result_status r \<noteq> ResultOk)
         \<and> (\<exists>n st c e. backend_update_event r = BackendUpdateMsg n st c e
               \<and> (e \<noteq> None) = (st = UpdateFailed)
               \<and> (st = UpdateFailed) = (result_status r \<noteq> ResultOk)))
   \<and> take (length arrivals) (drop (length (sess_events sess))
         (sess_events (run_round strat arrivals sess)))
       = map backend_update_event (dispatch arrivals)"
proof -
  have "length (dispatch arrivals) = length arrivals" by (simp add: dispatch_def)
  then have "take (length arrivals) (drop (length (sess_events sess))
         (sess_events (run_round strat arrivals sess)))
       = map backend_update_event (dispatch arrivals)"
    by (simp add: events_round)
  then show ?thesis
    using emit_result_iff[of name outcome] dispatch_iff update_event_iff by blast
qed

theorem error_detail_iff_not_ok_witness:
  "map result_status (dispatch [(''A'', DeadlineExceeded), (''B'', Returned [Parsed draft_A, Malformed]),
        (''C'', Errored ''HTTP 500'')])
     = [ResultTimedOut, ResultOk, ResultFailed]
   \<and> map error_detail (dispatch [(''A'', DeadlineExceeded), (''B'', Returned [Parsed draft_A, Malformed]),
        (''C'', Errored ''HTTP 500'')])
     = [Some ''timed out'', None, Some ''HTTP 500'']
   \<and> sess_events (run_round scenario_strategy
        [(''A'', DeadlineExceeded), (''B'', Returned [Parsed draft_A, Malformed]),
         (''C'', Errored ''HTTP 500'')] new_session)
     = [BackendUpdateMsg ''A'' UpdateFailed None (Some ''timed out''),
        BackendUpdateMsg ''B'' UpdateDone (Some 1) None,
        BackendUpdateMsg ''C'' UpdateFailed None (Some ''HTTP 500'')]"
  using error_detail_iff_not_ok
    [of "''A''" DeadlineExceeded
        "[(''A'', DeadlineExceeded), (''B'', Returned [Parsed draft_A, Malformed]),
          (''C'', Errored ''HTTP 500'')]"
        new_session scenario_strategy]
  by (simp add: dispatch_def run_round_def process_result_def backend_update_event_def
      new_session_def)

lemma store_fold_failed:
  "list_all (\<lambda>r. result_status r \<noteq> ResultOk) results \<Longrightarrow>
   sess_store (fold (process_result strat) results s) = sess_store s"
  by (induction results arbitrary: s) (auto simp: process_result_def)

lemma sublist_concat: "x \<in> set xs \<Longrightarrow> sublist x (concat xs)"
proof -
  assume "x \<in> set xs"
  then obtain as bs where "xs = as @ x # bs" by (auto dest: split_list)
  then have "concat xs = concat as @ x @ concat bs" by simp
  then show ?thesis by (metis sublist_appendI)
qed

lemma name_in_detail:
  assumes r: "r \<in> set results" and f: "result_status r \<noteq> ResultOk"
  shows "sublist (backend_name r) (failure_detail results)"
proof -
  have "failure_line r \<in> set (map failure_line (filter (\<lambda>r. result_status r \<noteq> ResultOk) results))"
    using r f by simp
  then have "sublist (failure_line r) (failure_detail results)"
    unfolding failure_detail_def by (rule sublist_concat)
  moreover have "sublist (backend_name r) (failure_line r)"
    by (simp add: failure_line_def)
  ultimately show ?thesis
    using sublist_order.order_trans by blast
qed

lemma dispatch_all_failed:
  "(\<forall>a \<in> set arrivals. failed_outcome (snd a)) \<longleftrightarrow>
   list_all (\<lambda>r. result_status r \<noteq> ResultOk) (dispatch arrivals)"
  by (auto simp: dispatch_def list_all_iff emit_result_failed split: prod.splits)

text \<open>
  C4. When every adapter of a round fails or times out, the Session ends the round in
  the stage \<^verbatim>\<open>failed\<close> with a detail in which the name of every backend of the round
  occurs, and the Claim Store is what it was before the round: the round adds no Claim,
  and a fresh session holds none.
\<close>

theorem all_backends_failed:
  assumes "\<forall>a \<in> set arrivals. failed_outcome (snd a)"
  shows "sess_stage (run_round strat arrivals sess) = StageFailed
    \<and> (\<exists>detail. sess_detail (run_round strat arrivals sess) = Some detail
          \<and> (\<forall>a \<in> set arrivals. sublist (fst a) detail))
    \<and> sess_store (run_round strat arrivals sess) = sess_store sess
    \<and> claims (sess_store (run_round strat arrivals new_session)) = []"
proof -
  have all: "list_all (\<lambda>r. result_status r \<noteq> ResultOk) (dispatch arrivals)"
    using assms by (simp add: dispatch_all_failed)
  have st: "sess_store (run_round strat arrivals s) = sess_store s" for s
    using all by (simp add: run_round_def Let_def store_fold_failed)
  have "sublist (fst a) (failure_detail (dispatch arrivals))" if a: "a \<in> set arrivals" for a
  proof -
    have "emit_result (fst a) (snd a) \<in> set (dispatch arrivals)"
      using a by (force simp: dispatch_def)
    moreover have "result_status (emit_result (fst a) (snd a)) \<noteq> ResultOk"
      using assms a by (simp add: emit_result_failed)
    ultimately show ?thesis
      using name_in_detail[of "emit_result (fst a) (snd a)" "dispatch arrivals"]
      by (simp add: emit_result_name)
  qed
  then have names: "\<forall>a \<in> set arrivals. sublist (fst a) (failure_detail (dispatch arrivals))"
    by blast
  have stage: "sess_stage (run_round strat arrivals sess) = StageFailed"
    using all by (simp add: run_round_def Let_def)
  have detail: "sess_detail (run_round strat arrivals sess) = Some (failure_detail (dispatch arrivals))"
    using all by (simp add: run_round_def Let_def)
  have fresh: "claims (sess_store (run_round strat arrivals new_session)) = []"
    using st[of new_session] by (simp add: new_session_def empty_store_def)
  show ?thesis
    using stage detail names st[of sess] fresh by simp
qed

theorem all_backends_failed_witness:
  "failed_outcome DeadlineExceeded \<and> failed_outcome (Errored ''HTTP 500'')
   \<and> sess_stage (run_round scenario_strategy
        [(''gemini'', DeadlineExceeded), (''grok'', Errored ''HTTP 500'')] new_session)
     = StageFailed
   \<and> sess_detail (run_round scenario_strategy
        [(''gemini'', DeadlineExceeded), (''grok'', Errored ''HTTP 500'')] new_session)
     = Some ''gemini: timed out; grok: HTTP 500; ''
   \<and> claims (sess_store (run_round scenario_strategy
        [(''gemini'', DeadlineExceeded), (''grok'', Errored ''HTTP 500'')] new_session)) = []"
  using all_backends_failed
    [of "[(''gemini'', DeadlineExceeded), (''grok'', Errored ''HTTP 500'')]"
        scenario_strategy new_session]
  by (simp add: run_round_def dispatch_def process_result_def failure_detail_def
      failure_line_def new_session_def)

end
